theory Spec2Isabelle
  imports Main "HOL-Library.Sublist"
begin

section \<open>JavaScript values and array primitives used by the chat model\<close>

text \<open>
  Strings are character lists. An optional property (\<open>text?: string\<close>) is an
  \<open>option\<close>; \<open>None\<close> stands for both an absent property and \<open>undefined\<close>.
  A condition \<open>if (s)\<close> on such a value holds exactly when the string is present and
  not empty.
\<close>

definition truthy :: "string option \<Rightarrow> bool" where
  "truthy v = (case v of None \<Rightarrow> False | Some s \<Rightarrow> s \<noteq> [])"

text \<open>
  \<open>Array.prototype.at\<close>: a negative index counts from the end, anything outside
  the array is \<open>undefined\<close>.
\<close>

definition at_js :: "'a list \<Rightarrow> int \<Rightarrow> 'a option" where
  "at_js xs index =
     (let len = int (length xs);
          k = (if 0 \<le> index then index else len + index)
      in if k < 0 \<or> len \<le> k then None else Some (xs ! nat k))"

text \<open>\<open>Array.prototype.pop\<close>: the removed element (if any) and the remaining array.\<close>

definition pop_js :: "'a list \<Rightarrow> 'a option \<times> 'a list" where
  "pop_js xs = (if xs = [] then (None, []) else (Some (last xs), butlast xs))"

text \<open>
  \<open>Array.prototype.splice(start)\<close> with one argument removes everything from the
  (clamped, possibly end-relative) start position; the function gives what remains.
\<close>

definition splice_js :: "'a list \<Rightarrow> int \<Rightarrow> 'a list" where
  "splice_js xs start =
     (let len = int (length xs);
          actualStart = (if start < 0 then max (len + start) 0 else min start len)
      in take (nat actualStart) xs)"

text \<open>
  \<open>findLastIndex\<close> and lodash's \<open>findLast\<close> scan from the last element down to
  the first; \<open>findLastIndex\<close> answers \<open>-1\<close> when nothing matches.
\<close>

fun findLastIndex_from :: "('a \<Rightarrow> bool) \<Rightarrow> 'a list \<Rightarrow> nat \<Rightarrow> int" where
  "findLastIndex_from p xs 0 = - 1"
| "findLastIndex_from p xs (Suc k) =
     (if p (xs ! k) then int k else findLastIndex_from p xs k)"

definition findLastIndex :: "('a \<Rightarrow> bool) \<Rightarrow> 'a list \<Rightarrow> int" where
  "findLastIndex p xs = findLastIndex_from p xs (length xs)"

fun findLast_from :: "('a \<Rightarrow> bool) \<Rightarrow> 'a list \<Rightarrow> nat \<Rightarrow> 'a option" where
  "findLast_from p xs 0 = None"
| "findLast_from p xs (Suc k) =
     (if p (xs ! k) then Some (xs ! k) else findLast_from p xs k)"

definition findLast :: "'a list \<Rightarrow> ('a \<Rightarrow> bool) \<Rightarrow> 'a option" where
  "findLast xs p = findLast_from p xs (length xs)"

section \<open>Data model\<close>

datatype speaker = Human | Assistant

fun speaker_name :: "speaker \<Rightarrow> string" where
  "speaker_name Human = ''human''"
| "speaker_name Assistant = ''assistant''"

text \<open>
  Modelled from the spec: the declarations of \<open>ContextItem\<close>, \<open>Message\<close> and
  \<open>ChatMessage\<close> live in the shared library, outside the sources at hand. A context
  item is a URI with an optional range; a message is a speaker with an optional text;
  a chat message adds the optional display text, context files and error payload.
  The field \<open>text\<close> is called \<open>msg_text\<close> here. The error payload type \<open>'c\<close> is
  whatever \<open>errorToChatError\<close> produces. \<open>message_content\<close> is the argument type
  \<open>Omit<Message, 'speaker'>\<close> of the two methods that add a message.
\<close>

record range_data =
  start_line :: nat
  start_character :: nat
  end_line :: nat
  end_character :: nat

record context_item =
  uri :: string
  item_range :: "range_data option"

record message_content =
  content_text :: "string option"

record 'c chat_message =
  speaker :: speaker
  msg_text :: "string option"
  displayText :: "string option"
  contextFiles :: "context_item list option"
  error :: "'c option"

text \<open>
  The class \<open>SimpleChatModel\<close>. Repository descriptors are values of type \<open>'r\<close> here;
  the sharing of repository objects between the model and its callers is the subject of
  the store model in the last section.
\<close>

record ('c, 'r) chat_model =
  modelID :: string
  messages :: "'c chat_message list"
  sessionID :: string
  customChatTitle :: "string option"
  selectedRepos :: "'r list option"

text \<open>A constructor call that leaves the optional arguments out.\<close>

definition new_model :: "string \<Rightarrow> string \<Rightarrow> ('c, 'r) chat_model" where
  "new_model mid sid =
     \<lparr>modelID = mid, messages = [], sessionID = sid,
      customChatTitle = None, selectedRepos = None\<rparr>"

text \<open>
  A thrown \<open>Error\<close> carries its message. A method that mutates the model returns
  what it threw or returned together with the model as it is at that moment.
\<close>

datatype js_error = Error string

type_synonym ('a, 'c, 'r) outcome = "(js_error + 'a) \<times> ('c, 'r) chat_model"

section \<open>Operations of the transcript\<close>

text \<open>
  \<open>this.messages.at(-1)\<close> is \<open>at_js (messages m) (- 1)\<close>, and \<open>x?.speaker\<close> is
  \<open>map_option speaker x\<close>. \<open>setLastMessageContext\<close> assigns to a property of the last
  element in place; the model puts the updated turn where the old one was. An index
  argument is an integer.
\<close>

definition isEmpty :: "('c, 'r) chat_model \<Rightarrow> bool" where
  "isEmpty m = (length (messages m) = 0)"

definition setLastMessageContext ::
  "(string \<Rightarrow> bool) \<Rightarrow> context_item list \<Rightarrow> ('c, 'r) chat_model \<Rightarrow> (unit, 'c, 'r) outcome" where
  "setLastMessageContext isCodyIgnoredFile newContextUsed m =
     (case at_js (messages m) (- 1) of
        None \<Rightarrow> (Inl (Error ''no last message''), m)
      | Some lastMessage \<Rightarrow>
          if speaker lastMessage \<noteq> Human
          then (Inl (Error ''Cannot set new context used for bot message''), m)
          else (Inr (),
                m\<lparr>messages := butlast (messages m) @
                   [lastMessage\<lparr>contextFiles :=
                      Some (filter (\<lambda>c. \<not> isCodyIgnoredFile (uri c)) newContextUsed)\<rparr>]\<rparr>))"

definition addHumanMessage ::
  "message_content \<Rightarrow> ('c, 'r) chat_model \<Rightarrow> (unit, 'c, 'r) outcome" where
  "addHumanMessage message m =
     (if map_option speaker (at_js (messages m) (- 1)) = Some Human
      then (Inl (Error ''Cannot add a user message after a user message''), m)
      else (Inr (),
            m\<lparr>messages := messages m @
               [\<lparr>speaker = Human, msg_text = content_text message, displayText = None,
                 contextFiles = None, error = None\<rparr>]\<rparr>))"

definition addBotMessage ::
  "message_content \<Rightarrow> string option \<Rightarrow> ('c, 'r) chat_model \<Rightarrow> (unit, 'c, 'r) outcome" where
  "addBotMessage message dt m =
     (let lastMessage = at_js (messages m) (- 1);
          push = (\<lambda>err ms.
            ms @ [\<lparr>speaker = Assistant, msg_text = content_text message, displayText = dt,
                   contextFiles = None, error = err\<rparr>])
      in if map_option speaker lastMessage = Some Assistant
         then if truthy (Option.bind lastMessage msg_text)
              then (Inl (Error ''Cannot add a bot message after a bot message''), m)
              else (let (popped, rest) = pop_js (messages m)
                    in (Inr (), m\<lparr>messages := push (Option.bind popped error) rest\<rparr>))
         else (Inr (), m\<lparr>messages := push None (messages m)\<rparr>))"

definition addErrorAsBotMessage ::
  "('e \<Rightarrow> 'c) \<Rightarrow> 'e \<Rightarrow> ('c, 'r) chat_model \<Rightarrow> (unit, 'c, 'r) outcome" where
  "addErrorAsBotMessage errorToChatError err m =
     (let lastMessage = at_js (messages m) (- 1);
          (lastAssistantMessage, rest) =
             (if map_option speaker lastMessage = Some Assistant
              then pop_js (messages m) else (None, messages m));
          base = (case lastAssistantMessage of
                    Some a \<Rightarrow> a
                  | None \<Rightarrow> \<lparr>speaker = Assistant, msg_text = None, displayText = None,
                             contextFiles = None, error = None\<rparr>)
      in (Inr (),
          m\<lparr>messages := rest @ [base\<lparr>speaker := Assistant,
                                      error := Some (errorToChatError err)\<rparr>]\<rparr>))"

definition getLastHumanMessage :: "('c, 'r) chat_model \<Rightarrow> 'c chat_message option" where
  "getLastHumanMessage m = findLast (messages m) (\<lambda>message. speaker message = Human)"

text \<open>
  The declared result type is \<open>number | undefined\<close>: \<open>Some i\<close> is the number \<open>i\<close>,
  \<open>None\<close> is \<open>undefined\<close>. The body hands back what \<open>findLastIndex\<close> computes.
\<close>

definition getLastSpeakerMessageIndex :: "speaker \<Rightarrow> ('c, 'r) chat_model \<Rightarrow> int option" where
  "getLastSpeakerMessageIndex sp m =
     Some (findLastIndex (\<lambda>message. speaker message = sp) (messages m))"

definition removeMessagesFromIndex ::
  "int \<Rightarrow> speaker \<Rightarrow> ('c, 'r) chat_model \<Rightarrow> (unit, 'c, 'r) outcome" where
  "removeMessagesFromIndex index expectedSpeaker m =
     (if isEmpty m
      then (Inl (Error ''SimpleChatModel.removeMessagesFromIndex: not message to remove''), m)
      else
        let speakerAtIndex = map_option speaker (at_js (messages m) index)
        in if speakerAtIndex \<noteq> Some expectedSpeaker
           then (Inl (Error (''SimpleChatModel.removeMessagesFromIndex: expected ''
                     @ speaker_name expectedSpeaker @ '', got ''
                     @ (case speakerAtIndex of None \<Rightarrow> ''undefined''
                        | Some s \<Rightarrow> speaker_name s))), m)
           else (Inr (), m\<lparr>messages := splice_js (messages m) index\<rparr>))"

definition getMessages :: "('c, 'r) chat_model \<Rightarrow> 'c chat_message list" where
  "getMessages m = messages m"

definition getCustomChatTitle :: "('c, 'r) chat_model \<Rightarrow> string option" where
  "getCustomChatTitle m = customChatTitle m"

definition setCustomChatTitle :: "string \<Rightarrow> ('c, 'r) chat_model \<Rightarrow> ('c, 'r) chat_model" where
  "setCustomChatTitle title m = m\<lparr>customChatTitle := Some title\<rparr>"

section \<open>Display text and title\<close>

text \<open>
  The functions the module imports from elsewhere, and the two string built-ins that
  \<open>getChatPanelTitle\<close> applies, are parameters: \<open>stripMarkdownLinks s\<close> stands for
  \<open>s.replaceAll(MARKDOWN_LINK_REGEX, '$1')\<close> and \<open>trim_js s\<close> for \<open>s.trim()\<close>.
\<close>

record display_env =
  createDisplayTextWithFileLinks :: "string \<Rightarrow> context_item list \<Rightarrow> string"
  reformatBotMessageForChat :: "string \<Rightarrow> string \<Rightarrow> string"
  stripMarkdownLinks :: "string \<Rightarrow> string"
  trim_js :: "string \<Rightarrow> string"

text \<open>
  \<open>getDisplayText\<close> tests \<open>message.text\<close> for truthiness in both speaker branches and
  returns it as it is otherwise; the model looks at the text once: absent, it is the
  result; present, it is rendered when it is not empty.
\<close>

definition getDisplayText :: "display_env \<Rightarrow> 'c chat_message \<Rightarrow> string option" where
  "getDisplayText env message =
     (if truthy (displayText message) then displayText message
      else case msg_text message of
        None \<Rightarrow> None
      | Some t \<Rightarrow>
          if speaker message = Human \<and> t \<noteq> []
          then Some (createDisplayTextWithFileLinks env t
                 (case contextFiles message of None \<Rightarrow> [] | Some cs \<Rightarrow> cs))
          else if speaker message = Assistant \<and> t \<noteq> []
          then Some (reformatBotMessageForChat env t [])
          else Some t)"

definition getChatPanelTitle :: "display_env \<Rightarrow> string option \<Rightarrow> bool \<Rightarrow> string" where
  "getChatPanelTitle env lastDisplayText truncateTitle =
     (case lastDisplayText of
        None \<Rightarrow> ''New Chat''
      | Some d \<Rightarrow>
          if d = [] then ''New Chat''
          else
            let d' = trim_js env (stripMarkdownLinks env d)
            in if \<not> truncateTitle then d'
               else if length d' > 25 then trim_js env (take 25 d') @ ''...'' else d')"

text \<open>
  In \<open>getChatTitle\<close> the name \<open>derived\<close> is what the method computes after the test
  \<open>if (this.customChatTitle)\<close> has failed, that is, when no title is set or the title is
  the empty string.
\<close>

definition getChatTitle :: "display_env \<Rightarrow> ('c, 'r) chat_model \<Rightarrow> string" where
  "getChatTitle env m =
     (let derived =
        (let lastHumanMessage = getLastHumanMessage m;
             text = Option.bind lastHumanMessage (getDisplayText env)
         in if truthy text then getChatPanelTitle env text True else ''New Chat'')
      in case customChatTitle m of
           None \<Rightarrow> derived
         | Some t \<Rightarrow> if t \<noteq> [] then t else derived)"

section \<open>Serialization\<close>

record 'c serialized_chat_interaction =
  humanMessage :: "'c chat_message"
  assistantMessage :: "'c chat_message option"

record ('c, 'r) serialized_chat_transcript =
  transcript_id :: string
  chatModel :: string
  chatTitle :: "string option"
  lastInteractionTimestamp :: string
  interactions :: "'c serialized_chat_interaction list"
  enhancedContext :: "'r list option"

text \<open>
  \<open>messageToSerializedChatInteraction\<close> is only called with \<open>this.messages[i]\<close> for
  \<open>i\<close> below the length, so its first argument is a turn. Its second test of the
  human speaker repeats the first and cannot fail after it.
\<close>

definition toSerializedInteractionMessage ::
  "display_env \<Rightarrow> 'c chat_message \<Rightarrow> 'c chat_message" where
  "toSerializedInteractionMessage env message =
     message\<lparr>displayText := getDisplayText env message\<rparr>"

definition messageToSerializedChatInteraction ::
  "display_env \<Rightarrow> 'c chat_message \<Rightarrow> 'c chat_message option
     \<Rightarrow> js_error + 'c serialized_chat_interaction" where
  "messageToSerializedChatInteraction env human assistant =
     (if speaker human \<noteq> Human then Inl (Error ''expected human message, got bot'')
      else case assistant of
        None \<Rightarrow>
          Inr \<lparr>humanMessage = toSerializedInteractionMessage env human,
               assistantMessage = None\<rparr>
      | Some a \<Rightarrow>
          if speaker a \<noteq> Assistant
          then Inl (Error (''expected bot message to have speaker == 'assistant', got ''
                     @ speaker_name (speaker a)))
          else Inr \<lparr>humanMessage = toSerializedInteractionMessage env human,
                    assistantMessage = Some (toSerializedInteractionMessage env a)\<rparr>)"

text \<open>The \<open>for\<close> loop of the serializer: \<open>i\<close> advances by two, \<open>acc\<close> is \<open>interactions\<close>.\<close>

function serialize_loop ::
  "display_env \<Rightarrow> 'c chat_message list \<Rightarrow> nat \<Rightarrow> 'c serialized_chat_interaction list
     \<Rightarrow> js_error + 'c serialized_chat_interaction list" where
  "serialize_loop env ms i acc =
     (if i < length ms
      then case messageToSerializedChatInteraction env (ms ! i) (at_js ms (int i + 1)) of
             Inl e \<Rightarrow> Inl e
           | Inr x \<Rightarrow> serialize_loop env ms (i + 2) (acc @ [x])
      else Inr acc)"
  by pat_completeness auto
termination
  by (relation "measure (\<lambda>(env, ms, i, acc). length ms - i)") auto

definition toSerializedChatTranscript ::
  "display_env \<Rightarrow> ('c, 'r) chat_model \<Rightarrow> js_error + ('c, 'r) serialized_chat_transcript" where
  "toSerializedChatTranscript env m =
     (case serialize_loop env (messages m) 0 [] of
        Inl e \<Rightarrow> Inl e
      | Inr xs \<Rightarrow>
          Inr \<lparr>transcript_id = sessionID m, chatModel = modelID m,
               chatTitle = getCustomChatTitle m, lastInteractionTimestamp = sessionID m,
               interactions = xs, enhancedContext = selectedRepos m\<rparr>)"

text \<open>
  The interaction the specification describes for the \<open>k\<close>-th pair of turns: the turn at
  \<open>2k\<close> as the human message, the turn at \<open>2k+1\<close> as the assistant message or \<open>null\<close>
  when the transcript ends before it, each with its display text materialized.
\<close>

definition interaction_of_pair ::
  "display_env \<Rightarrow> 'c chat_message list \<Rightarrow> nat \<Rightarrow> 'c serialized_chat_interaction" where
  "interaction_of_pair env ms k =
     \<lparr>humanMessage = toSerializedInteractionMessage env (ms ! (2 * k)),
      assistantMessage =
        (if 2 * k + 1 < length ms
         then Some (toSerializedInteractionMessage env (ms ! (2 * k + 1))) else None)\<rparr>"

section \<open>Sequences of calls and the pairing invariant\<close>

datatype call = AddHuman message_content | AddBot message_content "string option"

fun step :: "call \<Rightarrow> ('c, 'r) chat_model \<Rightarrow> (unit, 'c, 'r) outcome" where
  "step (AddHuman c) m = addHumanMessage c m"
| "step (AddBot c dt) m = addBotMessage c dt m"

text \<open>Calls run in order; the first one that throws ends the run.\<close>

fun run :: "call list \<Rightarrow> ('c, 'r) chat_model \<Rightarrow> (unit, 'c, 'r) outcome" where
  "run [] m = (Inr (), m)"
| "run (c # cs) m =
     (case step c m of
        (Inl e, m') \<Rightarrow> (Inl e, m')
      | (Inr u, m') \<Rightarrow> run cs m')"

text \<open>A sequence of calls that is empty or opens with \<open>addHumanMessage\<close>.\<close>

fun starts_with_human :: "call list \<Rightarrow> bool" where
  "starts_with_human [] = True"
| "starts_with_human (AddHuman c # cs) = True"
| "starts_with_human (AddBot c dt # cs) = False"

text \<open>Invariant I2: a human turn at every even index, an assistant turn at every odd one.\<close>

definition alternates :: "'c chat_message list \<Rightarrow> bool" where
  "alternates ms =
     list_all (\<lambda>i. speaker (ms ! i) = (if even i then Human else Assistant)) [0..<length ms]"

section \<open>Repository descriptors in a store\<close>

text \<open>
  Whether the model shares storage with its callers cannot be seen on values, so the
  two accessors of \<open>selectedRepos\<close> are modelled once more over an explicit store.
  An object reference is an index into \<open>objects\<close>, an array reference an index into
  \<open>arrays\<close>; an array holds object references. The content of a repository object is a
  value of type \<open>'r\<close> (its own properties, which are strings in the \<open>Repo\<close> interface).
  References held by a running program always point into the store; \<open>well_formed\<close>
  says so for the array handed to \<open>setSelectedRepos\<close>.
\<close>

record 'r store =
  objects :: "'r list"
  arrays :: "nat list list"

definition alloc_object :: "'r \<Rightarrow> 'r store \<Rightarrow> nat \<times> 'r store" where
  "alloc_object v st = (length (objects st), st\<lparr>objects := objects st @ [v]\<rparr>)"

definition alloc_array :: "nat list \<Rightarrow> 'r store \<Rightarrow> nat \<times> 'r store" where
  "alloc_array refs st = (length (arrays st), st\<lparr>arrays := arrays st @ [refs]\<rparr>)"

text \<open>\<open>repos.map(r => ({ ...r }))\<close>: a new object per element, then a new array of them.\<close>

fun map_spread :: "nat list \<Rightarrow> 'r store \<Rightarrow> nat list \<times> 'r store" where
  "map_spread [] st = ([], st)"
| "map_spread (r # rs) st =
     (let (r', st1) = alloc_object (objects st ! r) st;
          (rs', st2) = map_spread rs st1
      in (r' # rs', st2))"

definition copy_repos :: "nat \<Rightarrow> 'r store \<Rightarrow> nat \<times> 'r store" where
  "copy_repos a st =
     (let (refs, st1) = map_spread (arrays st ! a) st in alloc_array refs st1)"

record 'r repos_state =
  store :: "'r store"
  selectedRepos_ref :: "nat option"

definition getSelectedRepos :: "'r repos_state \<Rightarrow> nat option \<times> 'r repos_state" where
  "getSelectedRepos s =
     (case selectedRepos_ref s of
        None \<Rightarrow> (None, s)
      | Some a \<Rightarrow> (let (a', st) = copy_repos a (store s) in (Some a', s\<lparr>store := st\<rparr>)))"

definition setSelectedRepos :: "nat option \<Rightarrow> 'r repos_state \<Rightarrow> 'r repos_state" where
  "setSelectedRepos repos s =
     (case repos of
        None \<Rightarrow> s\<lparr>selectedRepos_ref := None\<rparr>
      | Some a \<Rightarrow> (let (a', st) = copy_repos a (store s)
                  in s\<lparr>store := st, selectedRepos_ref := Some a'\<rparr>))"

text \<open>The repository values an array reference leads to.\<close>

definition read_repos :: "'r store \<Rightarrow> nat \<Rightarrow> 'r list" where
  "read_repos st a = map (\<lambda>r. objects st ! r) (arrays st ! a)"

text \<open>An assignment to properties of an existing object, as a caller may do.\<close>

definition mutate_object :: "nat \<Rightarrow> 'r \<Rightarrow> 'r store \<Rightarrow> 'r store" where
  "mutate_object r v st = st\<lparr>objects := (objects st)[r := v]\<rparr>"

text \<open>
  What callers can do to the store between two calls: they may write to every object
  and array that existed before \<open>setSelectedRepos\<close> ran and allocate new ones, but they
  hold no reference to what that call allocated. \<open>keeps_segment lo xs ys\<close> says that
  \<open>ys\<close> still has the entries of \<open>xs\<close> from index \<open>lo\<close> on.
\<close>

definition keeps_segment :: "nat \<Rightarrow> 'a list \<Rightarrow> 'a list \<Rightarrow> bool" where
  "keeps_segment lo xs ys =
     (length xs \<le> length ys \<and> drop lo (take (length xs) ys) = drop lo xs)"

definition leaves_allocated :: "'r store \<Rightarrow> 'r store \<Rightarrow> 'r store \<Rightarrow> bool" where
  "leaves_allocated before after later =
     (keeps_segment (length (objects before)) (objects after) (objects later)
      \<and> keeps_segment (length (arrays before)) (arrays after) (arrays later))"

definition well_formed :: "'r store \<Rightarrow> nat \<Rightarrow> bool" where
  "well_formed st a =
     (a < length (arrays st) \<and> list_all (\<lambda>r. r < length (objects st)) (arrays st ! a))"

section \<open>Sample data\<close>

definition human_turn :: "string \<Rightarrow> nat chat_message" where
  "human_turn t =
     \<lparr>speaker = Human, msg_text = Some t, displayText = None, contextFiles = None,
      error = None\<rparr>"

definition bot_turn :: "string \<Rightarrow> nat chat_message" where
  "bot_turn t =
     \<lparr>speaker = Assistant, msg_text = Some t, displayText = None, contextFiles = None,
      error = None\<rparr>"

definition sample_model :: "nat chat_message list \<Rightarrow> (nat, unit) chat_model" where
  "sample_model ms = (new_model ''model'' ''session'')\<lparr>messages := ms\<rparr>"

definition hi_hello_bye :: "call list" where
  "hi_hello_bye =
     [AddHuman \<lparr>content_text = Some ''hi''\<rparr>,
      AddBot \<lparr>content_text = Some ''hello''\<rparr> None,
      AddHuman \<lparr>content_text = Some ''bye''\<rparr>]"

definition sample_env :: display_env where
  "sample_env =
     \<lparr>createDisplayTextWithFileLinks = (\<lambda>t cs. t), reformatBotMessageForChat = (\<lambda>t p. t),
      stripMarkdownLinks = (\<lambda>s. s), trim_js = (\<lambda>s. s)\<rparr>"

definition sample_items :: "context_item list" where
  "sample_items =
     [\<lparr>uri = ''a.ts'', item_range = None\<rparr>, \<lparr>uri = ''secret.env'', item_range = None\<rparr>,
      \<lparr>uri = ''b.ts'', item_range = None\<rparr>]"

definition sample_ignored :: "string \<Rightarrow> bool" where
  "sample_ignored u = (u = ''secret.env'')"

definition sample_repos_state :: "string repos_state" where
  "sample_repos_state =
     \<lparr>store = \<lparr>objects = [''org/repo''], arrays = [[0]]\<rparr>, selectedRepos_ref = None\<rparr>"

section \<open>Facts about the array primitives and the invariant\<close>

lemma at_js_last: "at_js xs (- 1) = (if xs = [] then None else Some (last xs))"
  by (cases xs rule: rev_cases) (simp_all add: at_js_def nat_diff_distrib' nth_append)

lemma at_js_nat: "at_js xs (int i) = (if i < length xs then Some (xs ! i) else None)"
  by (simp add: at_js_def)

lemma alternates_iff:
  "alternates ms \<longleftrightarrow>
     (\<forall>i<length ms. speaker (ms ! i) = (if even i then Human else Assistant))"
  unfolding alternates_def list_all_iff by (simp add: Ball_def split del: if_split)

lemma alternates_Nil: "alternates []"
  by (simp add: alternates_def)

lemma alternates_snoc:
  "alternates (ms @ [x]) \<longleftrightarrow>
     alternates ms \<and> speaker x = (if even (length ms) then Human else Assistant)"
  unfolding alternates_iff
  by (simp add: All_less_Suc nth_append conj_commute split del: if_split cong: conj_cong)

lemma alternates_butlast: "alternates ms \<Longrightarrow> alternates (butlast ms)"
  by (cases ms rule: rev_cases) (simp_all add: alternates_snoc alternates_Nil)

lemma alternates_last_parity:
  "alternates ms \<Longrightarrow> ms \<noteq> [] \<Longrightarrow> speaker (last ms) = Human \<longleftrightarrow> odd (length ms)"
  by (cases ms rule: rev_cases) (auto simp: alternates_snoc)

section \<open>Recording an error as an assistant turn\<close>

lemma addErrorAsBotMessage_messages:
  "messages (snd (addErrorAsBotMessage f e m)) =
     (if messages m \<noteq> [] \<and> speaker (last (messages m)) = Assistant
      then butlast (messages m) @
             [(last (messages m))\<lparr>speaker := Assistant, error := Some (f e)\<rparr>]
      else messages m @
             [\<lparr>speaker = Assistant, msg_text = None, displayText = None,
               contextFiles = None, error = Some (f e)\<rparr>])"
  by (simp add: addErrorAsBotMessage_def at_js_last pop_js_def Let_def)

lemma addErrorAsBotMessage_returns: "fst (addErrorAsBotMessage f e m) = Inr ()"
  by (simp add: addErrorAsBotMessage_def Let_def split: prod.splits)

lemma addErrorAsBotMessage_alternates:
  assumes "messages m \<noteq> []" "alternates (messages m)"
  shows "alternates (messages (snd (addErrorAsBotMessage f e m)))"
proof (cases "speaker (last (messages m)) = Assistant")
  case True
  with assms have "even (length (messages m))"
    using alternates_last_parity [of "messages m"] by auto
  with assms have "odd (length (butlast (messages m)))"
    by (cases "messages m" rule: rev_cases) auto
  with assms True show ?thesis
    by (simp add: addErrorAsBotMessage_messages alternates_snoc alternates_butlast)
next
  case False
  then have "speaker (last (messages m)) = Human"
    by (cases "speaker (last (messages m))") auto
  with assms have "odd (length (messages m))"
    using alternates_last_parity [of "messages m"] by auto
  with assms False show ?thesis
    by (simp add: addErrorAsBotMessage_messages alternates_snoc)
qed

text \<open>
  Claim C1, as amended. \<open>addErrorAsBotMessage\<close> never throws, and its result always ends
  with an assistant turn whose error is the normalized payload. When the transcript was
  not empty and had a human turn at every even index and an assistant turn at every odd
  index, the result has that shape again.
\<close>

theorem addErrorAsBotMessage_valid:
  "fst (addErrorAsBotMessage f e m) = Inr ()
   \<and> messages (snd (addErrorAsBotMessage f e m)) \<noteq> []
   \<and> speaker (last (messages (snd (addErrorAsBotMessage f e m)))) = Assistant
   \<and> error (last (messages (snd (addErrorAsBotMessage f e m)))) = Some (f e)
   \<and> (messages m \<noteq> [] \<and> alternates (messages m)
        \<longrightarrow> alternates (messages (snd (addErrorAsBotMessage f e m))))"
  using addErrorAsBotMessage_alternates [of m f e]
  by (simp add: addErrorAsBotMessage_returns addErrorAsBotMessage_messages)

theorem addErrorAsBotMessage_valid_witness:
  "messages (sample_model [human_turn ''hi'']) \<noteq> []
   \<and> alternates (messages (sample_model [human_turn ''hi'']))
   \<and> alternates (messages (snd (addErrorAsBotMessage Suc 0
        (sample_model [human_turn ''hi'']))))"
  using addErrorAsBotMessage_valid [of Suc 0 "sample_model [human_turn ''hi'']"]
  by (simp add: alternates_def human_turn_def sample_model_def)

text \<open>
  On the empty transcript the claim as written fails: the recorded turn lands at
  index 0, where the invariant wants a human turn.
\<close>

theorem addErrorAsBotMessage_empty_counterexample:
  "alternates (messages (sample_model []))
   \<and> fst (addErrorAsBotMessage Suc 0 (sample_model [])) = Inr ()
   \<and> \<not> alternates (messages (snd (addErrorAsBotMessage Suc 0 (sample_model []))))"
  by (simp add: addErrorAsBotMessage_def sample_model_def new_model_def at_js_def
      pop_js_def alternates_def)

text \<open>
  Claim C9. When the last turn is an assistant turn, \<open>addErrorAsBotMessage\<close> puts in its
  place the same turn with only the error replaced (the speaker was and stays
  \<open>assistant\<close>): text, display text and context files are those of the popped turn,
  and the turns before it and the other fields of the model are untouched.
\<close>

theorem addErrorAsBotMessage_keeps_fields:
  assumes "messages m = pre @ [a]" and "speaker a = Assistant"
  shows "addErrorAsBotMessage f e m = (Inr (), m\<lparr>messages := pre @ [a\<lparr>error := Some (f e)\<rparr>]\<rparr>)
    \<and> speaker (a\<lparr>error := Some (f e)\<rparr>) = Assistant
    \<and> error (a\<lparr>error := Some (f e)\<rparr>) = Some (f e)
    \<and> msg_text (a\<lparr>error := Some (f e)\<rparr>) = msg_text a
    \<and> displayText (a\<lparr>error := Some (f e)\<rparr>) = displayText a
    \<and> contextFiles (a\<lparr>error := Some (f e)\<rparr>) = contextFiles a"
  using assms by (simp add: addErrorAsBotMessage_def at_js_last pop_js_def)

theorem addErrorAsBotMessage_keeps_fields_witness:
  "messages (sample_model [human_turn ''q'', bot_turn ''partial'']) = [human_turn ''q''] @ [bot_turn ''partial'']
   \<and> speaker (bot_turn ''partial'') = Assistant
   \<and> messages (snd (addErrorAsBotMessage Suc 0 (sample_model [human_turn ''q'', bot_turn ''partial''])))
       = [human_turn ''q'', (bot_turn ''partial'')\<lparr>error := Some 1\<rparr>]
   \<and> msg_text ((bot_turn ''partial'')\<lparr>error := Some 1\<rparr>) = Some ''partial''"
  using addErrorAsBotMessage_keeps_fields [of "sample_model [human_turn ''q'', bot_turn ''partial'']"
     "[human_turn ''q'']" "bot_turn ''partial''" Suc 0]
  by (simp add: sample_model_def bot_turn_def)

text \<open>
  Claim C3. From a transcript that ends with a human turn, recording an error and then
  adding the bot message \<open>{text: "answer"}\<close> both succeed, and exactly one assistant
  turn follows that human turn: its text is \<open>answer\<close> and its error is the normalized
  payload of the recorded failure. The placeholder is gone.
\<close>

theorem error_then_answer:
  assumes "messages m = pre @ [h]" and "speaker h = Human"
  shows "fst (addErrorAsBotMessage f e m) = Inr ()
    \<and> addBotMessage \<lparr>content_text = Some ''answer''\<rparr> dt (snd (addErrorAsBotMessage f e m)) =
        (Inr (), m\<lparr>messages := pre @ [h,
           \<lparr>speaker = Assistant, msg_text = Some ''answer'', displayText = dt,
            contextFiles = None, error = Some (f e)\<rparr>]\<rparr>)"
  using assms
  by (simp add: addErrorAsBotMessage_def addBotMessage_def at_js_last pop_js_def truthy_def
      butlast_append)

theorem error_then_answer_witness:
  "messages (sample_model [human_turn ''q'']) = [] @ [human_turn ''q'']
   \<and> speaker (human_turn ''q'') = Human
   \<and> messages (snd (addBotMessage \<lparr>content_text = Some ''answer''\<rparr> None
        (snd (addErrorAsBotMessage Suc 0 (sample_model [human_turn ''q''])))))
       = [human_turn ''q'',
          \<lparr>speaker = Assistant, msg_text = Some ''answer'', displayText = None,
           contextFiles = None, error = Some 1\<rparr>]"
  using error_then_answer [of "sample_model [human_turn ''q'']" "[]" "human_turn ''q''" Suc 0 None]
  by (simp add: sample_model_def human_turn_def)

section \<open>Alternation under sequences of calls\<close>

lemma alternates_pairs:
  assumes "alternates ms"
  shows "(\<forall>k. 2 * k < length ms \<longrightarrow> speaker (ms ! (2 * k)) = Human)
       \<and> (\<forall>k. 2 * k + 1 < length ms \<longrightarrow> speaker (ms ! (2 * k + 1)) = Assistant)"
proof (intro conjI allI impI)
  fix k
  assume "2 * k < length ms"
  with assms have "speaker (ms ! (2 * k)) = (if even (2 * k) then Human else Assistant)"
    unfolding alternates_iff by blast
  then show "speaker (ms ! (2 * k)) = Human" by simp
next
  fix k
  assume "2 * k + 1 < length ms"
  with assms have "speaker (ms ! (2 * k + 1)) = (if even (2 * k + 1) then Human else Assistant)"
    unfolding alternates_iff by blast
  then show "speaker (ms ! (2 * k + 1)) = Assistant" by simp
qed

lemma alternates_single: "alternates [x] \<longleftrightarrow> speaker x = Human"
  by (simp add: alternates_def)

lemma addHumanMessage_alternates:
  assumes "addHumanMessage c m = (Inr u, m')" and "alternates (messages m)"
  shows "messages m' \<noteq> [] \<and> alternates (messages m')"
proof (cases "messages m = []")
  case True
  with assms show ?thesis
    by (auto simp: addHumanMessage_def at_js_last alternates_single split: if_splits)
next
  case False
  from assms(1) False have nh: "speaker (last (messages m)) \<noteq> Human"
    by (auto simp: addHumanMessage_def at_js_last split: if_splits)
  with assms(2) False have "even (length (messages m))"
    using alternates_last_parity [of "messages m"] by simp
  with assms False nh show ?thesis
    by (auto simp: addHumanMessage_def at_js_last alternates_snoc split: if_splits)
qed

lemma addBotMessage_alternates:
  assumes "addBotMessage c dt m = (Inr u, m')" and "alternates (messages m)"
    and "messages m \<noteq> []"
  shows "messages m' \<noteq> [] \<and> alternates (messages m')"
proof (cases "speaker (last (messages m)) = Assistant")
  case True
  with assms have "even (length (messages m))"
    using alternates_last_parity [of "messages m"] by auto
  with assms have "odd (length (butlast (messages m)))"
    by (cases "messages m" rule: rev_cases) auto
  with assms True show ?thesis
    by (auto simp: addBotMessage_def at_js_last pop_js_def alternates_snoc alternates_butlast
        Let_def split: if_splits)
next
  case False
  then have "speaker (last (messages m)) = Human"
    by (cases "speaker (last (messages m))") auto
  with assms have "odd (length (messages m))"
    using alternates_last_parity [of "messages m"] by auto
  with assms False show ?thesis
    by (auto simp: addBotMessage_def at_js_last alternates_snoc Let_def split: if_splits)
qed

lemma run_alternates_nonempty:
  "run cs m = (Inr u, m') \<Longrightarrow> alternates (messages m) \<Longrightarrow> messages m \<noteq> []
     \<Longrightarrow> messages m' \<noteq> [] \<and> alternates (messages m')"
proof (induction cs arbitrary: m)
  case Nil
  then show ?case by simp
next
  case (Cons c cs)
  obtain r m1 where s: "step c m = (r, m1)" by (cases "step c m")
  with Cons.prems(1) obtain u1 where r: "r = Inr u1" by (cases r) auto
  from s r Cons.prems have "messages m1 \<noteq> [] \<and> alternates (messages m1)"
    by (cases c) (auto dest: addHumanMessage_alternates addBotMessage_alternates)
  moreover from s r Cons.prems(1) have "run cs m1 = (Inr u, m')" by simp
  ultimately show ?case using Cons.IH by blast
qed

lemma run_alternates:
  assumes "starts_with_human cs" and "run cs m = (Inr u, m')" and "messages m = []"
  shows "alternates (messages m')"
proof (cases cs)
  case Nil
  with assms show ?thesis by (simp add: alternates_Nil)
next
  case (Cons c cs')
  with assms(1) obtain x where c: "c = AddHuman x" by (cases c) auto
  obtain r m1 where s: "addHumanMessage x m = (r, m1)" by (cases "addHumanMessage x m")
  with assms(2) Cons c obtain u1 where r: "r = Inr u1" by (cases r) auto
  from s r assms(3) have "messages m1 \<noteq> [] \<and> alternates (messages m1)"
    using addHumanMessage_alternates [of x m u1 m1] by (simp add: alternates_Nil)
  moreover from s r assms(2) Cons c have "run cs' m1 = (Inr u, m')" by simp
  ultimately show ?thesis using run_alternates_nonempty by blast
qed

lemma run_alternates_snd:
  assumes "starts_with_human cs" and "fst (run cs m) = Inr ()" and "messages m = []"
  shows "alternates (messages (snd (run cs m)))"
proof -
  from assms(2) have "run cs m = (Inr (), snd (run cs m))"
    by (simp add: prod_eq_iff)
  with assms(1) show ?thesis using assms(3) by (rule run_alternates)
qed

text \<open>
  Claim C2, as amended. Starting from an empty transcript, a sequence of
  \<open>addHumanMessage\<close> and \<open>addBotMessage\<close> calls of which none throws and of which the
  first (if there is one) is \<open>addHumanMessage\<close> leaves a human turn at every index
  \<open>2k\<close> and an assistant turn at every index \<open>2k+1\<close>.
\<close>

theorem valid_calls_alternate:
  assumes "messages m = []" and "starts_with_human cs" and "fst (run cs m) = Inr ()"
  shows "(\<forall>k. 2 * k < length (messages (snd (run cs m)))
            \<longrightarrow> speaker (messages (snd (run cs m)) ! (2 * k)) = Human)
       \<and> (\<forall>k. 2 * k + 1 < length (messages (snd (run cs m)))
            \<longrightarrow> speaker (messages (snd (run cs m)) ! (2 * k + 1)) = Assistant)"
proof -
  from assms(2,3,1) have "alternates (messages (snd (run cs m)))"
    by (rule run_alternates_snd)
  then show ?thesis by (rule alternates_pairs)
qed

theorem valid_calls_alternate_witness:
  "messages (sample_model []) = []
   \<and> starts_with_human hi_hello_bye
   \<and> fst (run hi_hello_bye (sample_model [])) = Inr ()
   \<and> length (messages (snd (run hi_hello_bye (sample_model [])))) = 3
   \<and> speaker (messages (snd (run hi_hello_bye (sample_model []))) ! (2 * 0)) = Human
   \<and> speaker (messages (snd (run hi_hello_bye (sample_model []))) ! (2 * 0 + 1)) = Assistant
   \<and> speaker (messages (snd (run hi_hello_bye (sample_model []))) ! (2 * 1)) = Human"
proof -
  have a: "messages (sample_model []) = []"
    by (simp add: sample_model_def)
  have b: "starts_with_human hi_hello_bye"
    by (simp add: hi_hello_bye_def)
  have c: "fst (run hi_hello_bye (sample_model [])) = Inr ()"
    by (simp add: hi_hello_bye_def sample_model_def new_model_def addHumanMessage_def
        addBotMessage_def at_js_def pop_js_def truthy_def)
  have d: "length (messages (snd (run hi_hello_bye (sample_model [])))) = 3"
    by (simp add: hi_hello_bye_def sample_model_def new_model_def addHumanMessage_def
        addBotMessage_def at_js_def pop_js_def truthy_def)
  note t = valid_calls_alternate [OF a b c]
  have h0: "speaker (messages (snd (run hi_hello_bye (sample_model []))) ! (2 * 0)) = Human"
    using conjunct1 [OF t, THEN spec, of 0] d by simp
  have h1: "speaker (messages (snd (run hi_hello_bye (sample_model []))) ! (2 * 0 + 1)) = Assistant"
    using conjunct2 [OF t, THEN spec, of 0] d by simp
  have h2: "speaker (messages (snd (run hi_hello_bye (sample_model []))) ! (2 * 1)) = Human"
    using conjunct1 [OF t, THEN spec, of 1] d by simp
  from a b c d h0 h1 h2 show ?thesis by blast
qed

text \<open>
  Without the condition on the first call the claim fails: \<open>addBotMessage\<close> on the
  empty transcript does not throw and puts an assistant turn at index 0.
\<close>

theorem bot_first_counterexample:
  "fst (run [AddBot \<lparr>content_text = Some ''hello''\<rparr> None] (sample_model [])) = Inr ()
   \<and> speaker (messages (snd (run [AddBot \<lparr>content_text = Some ''hello''\<rparr> None]
         (sample_model []))) ! 0) = Assistant
   \<and> speaker (messages (snd (run [AddBot \<lparr>content_text = Some ''hello''\<rparr> None]
         (sample_model []))) ! 0) \<noteq> Human"
  by (simp add: sample_model_def new_model_def addBotMessage_def at_js_def)

section \<open>Queries from the end of the transcript\<close>

lemma findLastIndex_from_found:
  "i < k \<Longrightarrow> p (xs ! i) \<Longrightarrow> (\<And>j. i < j \<Longrightarrow> j < k \<Longrightarrow> \<not> p (xs ! j))
     \<Longrightarrow> findLastIndex_from p xs k = int i"
proof (induction k)
  case 0
  then show ?case by simp
next
  case (Suc k)
  show ?case
  proof (cases "i = k")
    case True
    with Suc.prems show ?thesis by simp
  next
    case False
    with Suc.prems have "i < k" by simp
    moreover from Suc.prems False have "\<not> p (xs ! k)" by simp
    ultimately show ?thesis using Suc by simp
  qed
qed

lemma findLastIndex_from_none:
  "(\<And>j. j < k \<Longrightarrow> \<not> p (xs ! j)) \<Longrightarrow> findLastIndex_from p xs k = - 1"
  by (induction k) simp_all

lemma findLast_from_found:
  "i < k \<Longrightarrow> p (xs ! i) \<Longrightarrow> (\<And>j. i < j \<Longrightarrow> j < k \<Longrightarrow> \<not> p (xs ! j))
     \<Longrightarrow> findLast_from p xs k = Some (xs ! i)"
proof (induction k)
  case 0
  then show ?case by simp
next
  case (Suc k)
  show ?case
  proof (cases "i = k")
    case True
    with Suc.prems show ?thesis by simp
  next
    case False
    with Suc.prems have "i < k" by simp
    moreover from Suc.prems False have "\<not> p (xs ! k)" by simp
    ultimately show ?thesis using Suc by simp
  qed
qed

lemma findLast_from_none:
  "(\<And>j. j < k \<Longrightarrow> \<not> p (xs ! j)) \<Longrightarrow> findLast_from p xs k = None"
  by (induction k) simp_all

lemma findLast_last_match:
  assumes "xs = pre @ [h] @ post" and "p h" and "\<forall>x\<in>set post. \<not> p x"
  shows "findLast xs p = Some h"
proof -
  have "findLast_from p xs (length xs) = Some (xs ! length pre)"
  proof (rule findLast_from_found)
    show "length pre < length xs" using assms(1) by simp
    show "p (xs ! length pre)" using assms(1,2) by simp
    fix j assume "length pre < j" "j < length xs"
    then have "xs ! j = post ! (j - Suc (length pre))" and "j - Suc (length pre) < length post"
      using assms(1) by (auto simp: nth_append nth_Cons')
    with assms(3) show "\<not> p (xs ! j)" by simp
  qed
  with assms(1) show ?thesis by (simp add: findLast_def)
qed

lemma findLast_no_match: "\<forall>x\<in>set xs. \<not> p x \<Longrightarrow> findLast xs p = None"
  unfolding findLast_def by (rule findLast_from_none) simp

lemma getLastSpeakerMessageIndex_found:
  assumes "i < length (messages m)" and "speaker (messages m ! i) = sp"
    and "\<forall>j. i < j \<and> j < length (messages m) \<longrightarrow> speaker (messages m ! j) \<noteq> sp"
  shows "getLastSpeakerMessageIndex sp m = Some (int i)"
  using assms
  by (simp add: getLastSpeakerMessageIndex_def findLastIndex_def findLastIndex_from_found)

lemma getLastSpeakerMessageIndex_not_found:
  assumes "\<forall>x\<in>set (messages m). speaker x \<noteq> sp"
  shows "getLastSpeakerMessageIndex sp m = Some (- 1)"
  using assms
  by (simp add: getLastSpeakerMessageIndex_def findLastIndex_def findLastIndex_from_none)

text \<open>
  Claim C4. When some turn has the speaker asked for, the result is the highest such
  index (lemma \<open>getLastSpeakerMessageIndex_found\<close>). When none has, the method does not
  answer \<open>undefined\<close>: on a transcript with a single human turn the query for the
  assistant answers the number \<open>-1\<close>, and so does any query on the empty transcript.
\<close>

theorem getLastSpeakerMessageIndex_no_turn:
  "getLastSpeakerMessageIndex Assistant (sample_model [human_turn ''hi'']) = Some (- 1)
   \<and> getLastSpeakerMessageIndex Assistant (sample_model [human_turn ''hi'']) \<noteq> None
   \<and> getLastSpeakerMessageIndex Human (sample_model []) = Some (- 1)"
  by (simp add: getLastSpeakerMessageIndex_def findLastIndex_def sample_model_def
      new_model_def human_turn_def)

section \<open>Attaching context to the last turn\<close>

text \<open>
  Claim C5. On a transcript that ends with a human turn, \<open>setLastMessageContext\<close>
  succeeds and replaces that turn's context files with the items that are not ignored:
  all of them, in their original order (a subsequence of the given items containing
  exactly the non-ignored ones). Calling it again with the same items gives the same
  result.
\<close>

theorem setLastMessageContext_filters:
  assumes "messages m = pre @ [h]" and "speaker h = Human"
  shows "setLastMessageContext ign items m =
           (Inr (), m\<lparr>messages := pre @ [h\<lparr>contextFiles :=
                       Some (filter (\<lambda>c. \<not> ign (uri c)) items)\<rparr>]\<rparr>)
       \<and> setLastMessageContext ign items (snd (setLastMessageContext ign items m)) =
           setLastMessageContext ign items m
       \<and> subseq (filter (\<lambda>c. \<not> ign (uri c)) items) items
       \<and> set (filter (\<lambda>c. \<not> ign (uri c)) items) = {c \<in> set items. \<not> ign (uri c)}"
  using assms by (simp add: setLastMessageContext_def at_js_last)


theorem setLastMessageContext_filters_witness:
  "messages (sample_model [human_turn ''q'']) = [] @ [human_turn ''q'']
   \<and> speaker (human_turn ''q'') = Human
   \<and> contextFiles (last (messages (snd (setLastMessageContext sample_ignored sample_items
          (sample_model [human_turn ''q''])))))
       = Some [\<lparr>uri = ''a.ts'', item_range = None\<rparr>, \<lparr>uri = ''b.ts'', item_range = None\<rparr>]"
  using setLastMessageContext_filters [of "sample_model [human_turn ''q'']" "[]"
      "human_turn ''q''" sample_ignored sample_items]
  by (simp add: sample_model_def human_turn_def sample_items_def sample_ignored_def)

section \<open>Truncating the transcript\<close>

lemma splice_js_nat: "n \<le> length xs \<Longrightarrow> splice_js xs (int n) = take n xs"
  by (simp add: splice_js_def)

lemma removeMessagesFromIndex_error_unchanged:
  "removeMessagesFromIndex i sp m = (Inl e, m') \<Longrightarrow> m' = m"
  by (auto simp: removeMessagesFromIndex_def Let_def split: if_splits)

text \<open>
  Claim C6. \<open>removeMessagesFromIndex\<close> throws on the empty transcript, throws when the
  turn at the index has another speaker than the expected one (or when there is no turn
  at the index), and whenever it throws the model is what it was before the call. When
  the turn at index \<open>n\<close> has the expected speaker the call succeeds and keeps exactly
  the first \<open>n\<close> turns; a negative index counts from the end.
\<close>

theorem removeMessagesFromIndex_guarded:
  "(messages m = [] \<longrightarrow> (\<exists>msg. removeMessagesFromIndex i sp m = (Inl (Error msg), m)))
   \<and> (n < length (messages m) \<and> speaker (messages m ! n) \<noteq> sp
        \<longrightarrow> (\<exists>msg. removeMessagesFromIndex (int n) sp m = (Inl (Error msg), m)))
   \<and> (length (messages m) \<le> n
        \<longrightarrow> (\<exists>msg. removeMessagesFromIndex (int n) sp m = (Inl (Error msg), m)))
   \<and> (map_option speaker (at_js (messages m) i) \<noteq> Some sp
        \<longrightarrow> (\<exists>msg. removeMessagesFromIndex i sp m = (Inl (Error msg), m)))
   \<and> (\<forall>e m'. removeMessagesFromIndex i sp m = (Inl e, m') \<longrightarrow> m' = m)
   \<and> (n < length (messages m) \<and> speaker (messages m ! n) = sp
        \<longrightarrow> removeMessagesFromIndex (int n) sp m =
              (Inr (), m\<lparr>messages := take n (messages m)\<rparr>))
   \<and> (0 < n \<and> n \<le> length (messages m)
        \<and> speaker (messages m ! (length (messages m) - n)) = sp
        \<longrightarrow> removeMessagesFromIndex (- int n) sp m =
              (Inr (), m\<lparr>messages := take (length (messages m) - n) (messages m)\<rparr>))"
proof (intro conjI impI allI)
  assume "messages m = []"
  then show "\<exists>msg. removeMessagesFromIndex i sp m = (Inl (Error msg), m)"
    by (simp add: removeMessagesFromIndex_def isEmpty_def)
next
  assume "n < length (messages m) \<and> speaker (messages m ! n) \<noteq> sp"
  then show "\<exists>msg. removeMessagesFromIndex (int n) sp m = (Inl (Error msg), m)"
    by (simp add: removeMessagesFromIndex_def isEmpty_def at_js_nat)
next
  assume "length (messages m) \<le> n"
  then show "\<exists>msg. removeMessagesFromIndex (int n) sp m = (Inl (Error msg), m)"
    by (simp add: removeMessagesFromIndex_def isEmpty_def at_js_nat)
next
  assume "map_option speaker (at_js (messages m) i) \<noteq> Some sp"
  then show "\<exists>msg. removeMessagesFromIndex i sp m = (Inl (Error msg), m)"
    by (simp add: removeMessagesFromIndex_def)
next
  fix e m'
  assume "removeMessagesFromIndex i sp m = (Inl e, m')"
  then show "m' = m" by (rule removeMessagesFromIndex_error_unchanged)
next
  assume "n < length (messages m) \<and> speaker (messages m ! n) = sp"
  then show "removeMessagesFromIndex (int n) sp m =
      (Inr (), m\<lparr>messages := take n (messages m)\<rparr>)"
    by (auto simp: removeMessagesFromIndex_def isEmpty_def at_js_nat splice_js_nat)
next
  assume a: "0 < n \<and> n \<le> length (messages m)
    \<and> speaker (messages m ! (length (messages m) - n)) = sp"
  then have "at_js (messages m) (- int n) = Some (messages m ! (length (messages m) - n))"
    by (simp add: at_js_def nat_diff_distrib')
  moreover from a have "splice_js (messages m) (- int n) =
      take (length (messages m) - n) (messages m)"
    by (simp add: splice_js_def nat_diff_distrib')
  ultimately show "removeMessagesFromIndex (- int n) sp m =
      (Inr (), m\<lparr>messages := take (length (messages m) - n) (messages m)\<rparr>)"
    using a by (auto simp: removeMessagesFromIndex_def isEmpty_def)
qed

theorem removeMessagesFromIndex_guarded_witness:
  "(\<exists>msg. removeMessagesFromIndex 1 Human (sample_model [human_turn ''q'', bot_turn ''a'']) =
        (Inl (Error msg), sample_model [human_turn ''q'', bot_turn ''a'']))
   \<and> removeMessagesFromIndex 1 Assistant (sample_model [human_turn ''q'', bot_turn ''a'']) =
        (Inr (), sample_model [human_turn ''q''])
   \<and> removeMessagesFromIndex (- 2) Human (sample_model [human_turn ''q'', bot_turn ''a'']) =
        (Inr (), sample_model [])
   \<and> (\<exists>msg. removeMessagesFromIndex 0 Human (sample_model []) =
        (Inl (Error msg), sample_model []))"
proof -
  let ?m = "sample_model [human_turn ''q'', bot_turn ''a'']"
  have a: "\<exists>msg. removeMessagesFromIndex 1 Human ?m = (Inl (Error msg), ?m)"
    using removeMessagesFromIndex_guarded [where m = ?m and n = 1 and sp = Human and i = 1]
    by (simp add: sample_model_def human_turn_def bot_turn_def)
  have b: "removeMessagesFromIndex 1 Assistant ?m = (Inr (), sample_model [human_turn ''q''])"
    using removeMessagesFromIndex_guarded [where m = ?m and n = 1 and sp = Assistant and i = 1]
    by (simp add: sample_model_def human_turn_def bot_turn_def)
  have c: "removeMessagesFromIndex (- 2) Human ?m = (Inr (), sample_model [])"
    using removeMessagesFromIndex_guarded [where m = ?m and n = 2 and sp = Human and i = 1]
    by (simp add: sample_model_def human_turn_def bot_turn_def)
  have d: "\<exists>msg. removeMessagesFromIndex 0 Human (sample_model []) =
      (Inl (Error msg), sample_model [])"
    using removeMessagesFromIndex_guarded
      [where m = "sample_model []" and n = 0 and sp = Human and i = 0]
    by (simp add: sample_model_def)
  from a b c d show ?thesis by blast
qed

section \<open>The chat title\<close>

text \<open>
  Claim C7, as amended. \<open>getChatTitle\<close> returns the custom title whenever one has been
  set to a non-empty string, whatever the messages are. Otherwise it returns the title
  that \<open>getChatPanelTitle\<close> derives from the display text of the most recent human turn,
  provided that display text is not empty; and it returns \<open>New Chat\<close> when there is no
  human turn or the most recent one has no display text.
\<close>

theorem getChatTitle_cases:
  "(customChatTitle m = Some t \<and> t \<noteq> [] \<longrightarrow> getChatTitle env m = t)
   \<and> (\<not> truthy (customChatTitle m) \<and> messages m = pre @ [h] @ post \<and> speaker h = Human
        \<and> (\<forall>x\<in>set post. speaker x \<noteq> Human) \<and> getDisplayText env h = Some d \<and> d \<noteq> []
        \<longrightarrow> getChatTitle env m = getChatPanelTitle env (Some d) True)
   \<and> (\<not> truthy (customChatTitle m) \<and> (\<forall>x\<in>set (messages m). speaker x \<noteq> Human)
        \<longrightarrow> getChatTitle env m = ''New Chat'')
   \<and> (\<not> truthy (customChatTitle m) \<and> messages m = pre @ [h] @ post \<and> speaker h = Human
        \<and> (\<forall>x\<in>set post. speaker x \<noteq> Human) \<and> \<not> truthy (getDisplayText env h)
        \<longrightarrow> getChatTitle env m = ''New Chat'')"
proof (intro conjI impI)
  assume "customChatTitle m = Some t \<and> t \<noteq> []"
  then show "getChatTitle env m = t" by (simp add: getChatTitle_def)
next
  assume a: "\<not> truthy (customChatTitle m) \<and> messages m = pre @ [h] @ post \<and> speaker h = Human
        \<and> (\<forall>x\<in>set post. speaker x \<noteq> Human) \<and> getDisplayText env h = Some d \<and> d \<noteq> []"
  then have "getLastHumanMessage m = Some h"
    unfolding getLastHumanMessage_def by (intro findLast_last_match [of _ pre h post]) simp_all
  with a show "getChatTitle env m = getChatPanelTitle env (Some d) True"
    by (auto simp: getChatTitle_def truthy_def split: option.splits)
next
  assume a: "\<not> truthy (customChatTitle m) \<and> (\<forall>x\<in>set (messages m). speaker x \<noteq> Human)"
  then have "getLastHumanMessage m = None"
    unfolding getLastHumanMessage_def by (intro findLast_no_match) simp
  with a show "getChatTitle env m = ''New Chat''"
    by (auto simp: getChatTitle_def truthy_def split: option.splits)
next
  assume a: "\<not> truthy (customChatTitle m) \<and> messages m = pre @ [h] @ post \<and> speaker h = Human
        \<and> (\<forall>x\<in>set post. speaker x \<noteq> Human) \<and> \<not> truthy (getDisplayText env h)"
  then have "getLastHumanMessage m = Some h"
    unfolding getLastHumanMessage_def by (intro findLast_last_match [of _ pre h post]) simp_all
  with a show "getChatTitle env m = ''New Chat''"
    by (auto simp: getChatTitle_def truthy_def split: option.splits)
qed

theorem getChatTitle_cases_witness:
  "getChatTitle sample_env (setCustomChatTitle ''Foo'' (sample_model [human_turn ''hi''])) = ''Foo''
   \<and> getChatTitle sample_env (sample_model [human_turn ''hi'', bot_turn ''hello'']) = ''hi''
   \<and> getChatTitle sample_env (sample_model []) = ''New Chat''"
proof -
  have a: "getChatTitle sample_env (setCustomChatTitle ''Foo'' (sample_model [human_turn ''hi'']))
      = ''Foo''"
    using getChatTitle_cases [where m = "setCustomChatTitle ''Foo'' (sample_model [human_turn ''hi''])"
        and t = "''Foo''" and env = sample_env]
    by (simp add: setCustomChatTitle_def)
  have b: "getChatTitle sample_env (sample_model [human_turn ''hi'', bot_turn ''hello'']) = ''hi''"
    using getChatTitle_cases [where m = "sample_model [human_turn ''hi'', bot_turn ''hello'']"
        and env = sample_env and pre = "[]" and h = "human_turn ''hi''"
        and post = "[bot_turn ''hello'']" and d = "''hi''"]
    by (simp add: sample_model_def new_model_def human_turn_def bot_turn_def truthy_def
        getDisplayText_def getChatPanelTitle_def sample_env_def)
  have c: "getChatTitle sample_env (sample_model []) = ''New Chat''"
    using getChatTitle_cases [where m = "sample_model []" and env = sample_env]
    by (simp add: sample_model_def new_model_def truthy_def)
  from a b c show ?thesis by blast
qed

text \<open>
  A custom title set to the empty string does not win: the title is then derived from
  the messages, or is \<open>New Chat\<close>.
\<close>

theorem empty_custom_title_counterexample:
  "customChatTitle (setCustomChatTitle [] (sample_model [human_turn ''hi''])) = Some []
   \<and> getChatTitle sample_env (setCustomChatTitle [] (sample_model [human_turn ''hi''])) = ''hi''
   \<and> getChatTitle sample_env (setCustomChatTitle [] (sample_model [])) = ''New Chat''"
  by (simp add: setCustomChatTitle_def sample_model_def new_model_def human_turn_def
      getChatTitle_def getLastHumanMessage_def findLast_def getDisplayText_def truthy_def
      getChatPanelTitle_def sample_env_def)


section \<open>Serializing the transcript\<close>

lemma messageToSerializedChatInteraction_pair:
  assumes "alternates ms" and "even i" and "i < length ms"
  shows "messageToSerializedChatInteraction env (ms ! i) (at_js ms (int i + 1)) =
           Inr (interaction_of_pair env ms (i div 2))"
proof -
  from assms have h: "speaker (ms ! i) = Human"
    by (simp add: alternates_iff)
  have at: "at_js ms (int i + 1) = (if i + 1 < length ms then Some (ms ! (i + 1)) else None)"
    using at_js_nat [of ms "i + 1"] by (simp add: add.commute)
  have a: "i + 1 < length ms \<Longrightarrow> speaker (ms ! (i + 1)) = Assistant"
    using assms(1,2) by (simp add: alternates_iff)
  from assms(2) have "2 * (i div 2) = i" by simp
  with h at a show ?thesis
    by (simp add: messageToSerializedChatInteraction_def interaction_of_pair_def)
qed

lemma serialize_loop_alternates:
  "alternates ms \<Longrightarrow> even i \<Longrightarrow>
     serialize_loop env ms i acc =
       Inr (acc @ map (interaction_of_pair env ms) [i div 2 ..< (length ms + 1) div 2])"
proof (induction env ms i acc rule: serialize_loop.induct)
  case (1 env ms i acc)
  show ?case
  proof (cases "i < length ms")
    case True
    with "1.prems" have x: "messageToSerializedChatInteraction env (ms ! i) (at_js ms (int i + 1)) =
        Inr (interaction_of_pair env ms (i div 2))"
      by (simp add: messageToSerializedChatInteraction_pair)
    from "1.prems" have "even (i + 2)" by simp
    with "1.IH" [OF True x "1.prems"(1)] have ih:
      "serialize_loop env ms (i + 2) (acc @ [interaction_of_pair env ms (i div 2)]) =
         Inr ((acc @ [interaction_of_pair env ms (i div 2)]) @
              map (interaction_of_pair env ms) [(i + 2) div 2 ..< (length ms + 1) div 2])"
      by blast
    from True "1.prems"(2) have lt: "i div 2 < (length ms + 1) div 2"
      by presburger
    have "[i div 2 ..< (length ms + 1) div 2] =
        i div 2 # [(i + 2) div 2 ..< (length ms + 1) div 2]"
      using lt by (simp add: upt_conv_Cons)
    with True x ih show ?thesis
      by (subst serialize_loop.simps) simp
  next
    case False
    with "1.prems"(2) have "(length ms + 1) div 2 \<le> i div 2"
      by presburger
    with False show ?thesis
      by (subst serialize_loop.simps) simp
  qed
qed


text \<open>
  Claim C8. A transcript with a human turn at every even index and an assistant turn
  at every odd index serializes to one interaction per pair of turns, in order, the last
  one with \<open>assistantMessage = null\<close> when the number of turns is odd. In particular,
  after \<open>addHumanMessage({text: "hi"})\<close>, \<open>addBotMessage({text: "hello"})\<close> and
  \<open>addHumanMessage({text: "bye"})\<close> on an empty transcript, none of which throws, the
  serialized transcript has exactly two interactions: the first with both messages, the
  second with the human text \<open>bye\<close> and no assistant message.
\<close>

theorem serialization_pairs_turns:
  "(alternates (messages m) \<longrightarrow>
      toSerializedChatTranscript env m =
        Inr \<lparr>transcript_id = sessionID m, chatModel = modelID m,
             chatTitle = customChatTitle m, lastInteractionTimestamp = sessionID m,
             interactions = map (interaction_of_pair env (messages m))
                              [0 ..< (length (messages m) + 1) div 2],
             enhancedContext = selectedRepos m\<rparr>)
   \<and> fst (run hi_hello_bye (new_model mid sid)) = Inr ()
   \<and> toSerializedChatTranscript env' (snd (run hi_hello_bye (new_model mid sid))) =
      Inr \<lparr>transcript_id = sid, chatModel = mid, chatTitle = None,
           lastInteractionTimestamp = sid,
           interactions =
             [\<lparr>humanMessage =
                 \<lparr>speaker = Human, msg_text = Some ''hi'',
                  displayText = Some (createDisplayTextWithFileLinks env' ''hi'' []),
                  contextFiles = None, error = None\<rparr>,
               assistantMessage = Some
                 \<lparr>speaker = Assistant, msg_text = Some ''hello'',
                  displayText = Some (reformatBotMessageForChat env' ''hello'' []),
                  contextFiles = None, error = None\<rparr>\<rparr>,
              \<lparr>humanMessage =
                 \<lparr>speaker = Human, msg_text = Some ''bye'',
                  displayText = Some (createDisplayTextWithFileLinks env' ''bye'' []),
                  contextFiles = None, error = None\<rparr>,
               assistantMessage = None\<rparr>],
           enhancedContext = None\<rparr>"
proof (intro conjI impI)
  assume "alternates (messages m)"
  then show "toSerializedChatTranscript env m =
        Inr \<lparr>transcript_id = sessionID m, chatModel = modelID m,
             chatTitle = customChatTitle m, lastInteractionTimestamp = sessionID m,
             interactions = map (interaction_of_pair env (messages m))
                              [0 ..< (length (messages m) + 1) div 2],
             enhancedContext = selectedRepos m\<rparr>"
    by (simp add: toSerializedChatTranscript_def serialize_loop_alternates
        getCustomChatTitle_def del: serialize_loop.simps)
next
  show "fst (run hi_hello_bye (new_model mid sid)) = Inr ()"
    by (simp add: hi_hello_bye_def new_model_def addHumanMessage_def addBotMessage_def
        at_js_def pop_js_def truthy_def)
next
  show "toSerializedChatTranscript env' (snd (run hi_hello_bye (new_model mid sid))) =
      Inr \<lparr>transcript_id = sid, chatModel = mid, chatTitle = None,
           lastInteractionTimestamp = sid,
           interactions =
             [\<lparr>humanMessage =
                 \<lparr>speaker = Human, msg_text = Some ''hi'',
                  displayText = Some (createDisplayTextWithFileLinks env' ''hi'' []),
                  contextFiles = None, error = None\<rparr>,
               assistantMessage = Some
                 \<lparr>speaker = Assistant, msg_text = Some ''hello'',
                  displayText = Some (reformatBotMessageForChat env' ''hello'' []),
                  contextFiles = None, error = None\<rparr>\<rparr>,
              \<lparr>humanMessage =
                 \<lparr>speaker = Human, msg_text = Some ''bye'',
                  displayText = Some (createDisplayTextWithFileLinks env' ''bye'' []),
                  contextFiles = None, error = None\<rparr>,
               assistantMessage = None\<rparr>],
           enhancedContext = None\<rparr>"
    by (simp add: hi_hello_bye_def new_model_def addHumanMessage_def addBotMessage_def
      at_js_def pop_js_def truthy_def toSerializedChatTranscript_def serialize_loop.simps
      messageToSerializedChatInteraction_def toSerializedInteractionMessage_def
      getDisplayText_def getCustomChatTitle_def)
qed

theorem serialization_pairs_turns_witness:
  "alternates (messages (sample_model [human_turn ''only'']))
   \<and> toSerializedChatTranscript sample_env (sample_model [human_turn ''only'']) =
       Inr \<lparr>transcript_id = ''session'', chatModel = ''model'', chatTitle = None,
            lastInteractionTimestamp = ''session'',
            interactions =
              [\<lparr>humanMessage = (human_turn ''only'')\<lparr>displayText := Some ''only''\<rparr>,
                assistantMessage = None\<rparr>],
            enhancedContext = None\<rparr>"
proof -
  have a: "alternates (messages (sample_model [human_turn ''only'']))"
    by (simp add: sample_model_def human_turn_def alternates_def)
  from serialization_pairs_turns [where m = "sample_model [human_turn ''only'']"
      and env = sample_env] a
  have "toSerializedChatTranscript sample_env (sample_model [human_turn ''only'']) =
        Inr \<lparr>transcript_id = sessionID (sample_model [human_turn ''only'']),
             chatModel = modelID (sample_model [human_turn ''only'']),
             chatTitle = customChatTitle (sample_model [human_turn ''only'']),
             lastInteractionTimestamp = sessionID (sample_model [human_turn ''only'']),
             interactions = map (interaction_of_pair sample_env
                 (messages (sample_model [human_turn ''only''])))
               [0 ..< (length (messages (sample_model [human_turn ''only''])) + 1) div 2],
             enhancedContext = selectedRepos (sample_model [human_turn ''only''])\<rparr>"
    by blast
  then have "toSerializedChatTranscript sample_env (sample_model [human_turn ''only'']) =
       Inr \<lparr>transcript_id = ''session'', chatModel = ''model'', chatTitle = None,
            lastInteractionTimestamp = ''session'',
            interactions =
              [\<lparr>humanMessage = (human_turn ''only'')\<lparr>displayText := Some ''only''\<rparr>,
                assistantMessage = None\<rparr>],
            enhancedContext = None\<rparr>"
    by (simp add: sample_model_def new_model_def human_turn_def interaction_of_pair_def
        toSerializedInteractionMessage_def getDisplayText_def truthy_def sample_env_def)
  with a show ?thesis by blast
qed

section \<open>Isolation of the selected repositories\<close>

lemma keeps_segment_nth:
  assumes "keeps_segment lo xs ys" and "lo \<le> i" and "i < length xs"
  shows "ys ! i = xs ! i"
proof -
  from assms(1) have eq: "drop lo (take (length xs) ys) = drop lo xs"
    and len: "length xs \<le> length ys"
    by (simp_all add: keeps_segment_def)
  have "ys ! i = take (length xs) ys ! i"
    using assms(3) by simp
  also have "\<dots> = drop lo (take (length xs) ys) ! (i - lo)"
    using assms(2,3) len by simp
  also have "\<dots> = drop lo xs ! (i - lo)"
    by (simp only: eq)
  also have "\<dots> = xs ! i"
    using assms(2,3) by simp
  finally show ?thesis .
qed

lemma map_spread_eq:
  "\<forall>r\<in>set rs. r < length (objects st) \<Longrightarrow>
     map_spread rs st =
       ([length (objects st) ..< length (objects st) + length rs],
        st\<lparr>objects := objects st @ map (\<lambda>r. objects st ! r) rs\<rparr>)"
proof (induction rs arbitrary: st)
  case Nil
  then show ?case by simp
next
  case (Cons r rs)
  let ?n = "length (objects st)"
  let ?st1 = "st\<lparr>objects := objects st @ [objects st ! r]\<rparr>"
  from Cons.prems have "\<forall>x\<in>set rs. x < length (objects ?st1)" by auto
  then have ih: "map_spread rs ?st1 =
       ([length (objects ?st1) ..< length (objects ?st1) + length rs],
        ?st1\<lparr>objects := objects ?st1 @ map (\<lambda>r. objects ?st1 ! r) rs\<rparr>)"
    by (rule Cons.IH)
  from Cons.prems have same: "map (\<lambda>x. objects ?st1 ! x) rs = map (\<lambda>x. objects st ! x) rs"
    by (simp add: nth_append)
  have u: "[?n ..< ?n + length (r # rs)] = ?n # [Suc ?n ..< Suc ?n + length rs]"
    by (simp add: upt_conv_Cons del: upt_Suc)
  have "map_spread (r # rs) st =
      (?n # [Suc ?n ..< Suc ?n + length rs],
       st\<lparr>objects := objects st @ objects st ! r # map (\<lambda>x. objects st ! x) rs\<rparr>)"
    using ih same by (simp add: alloc_object_def del: upt_Suc)
  then show ?case
    by (simp only: u list.map)
qed

lemma map_nth_fresh:
  "map (\<lambda>r. (xs @ ys) ! r) [length xs ..< length xs + length ys] = ys"
  by (rule nth_equalityI) (simp_all add: nth_append)

lemma copy_repos_eq:
  assumes "well_formed st a"
  shows "copy_repos a st =
    (length (arrays st),
     st\<lparr>objects := objects st @ map (\<lambda>r. objects st ! r) (arrays st ! a),
        arrays := arrays st @
          [[length (objects st) ..< length (objects st) + length (arrays st ! a)]]\<rparr>)"
  using assms
  by (simp add: copy_repos_def well_formed_def list_all_iff map_spread_eq alloc_array_def)

lemma copy_repos_read:
  assumes "well_formed st a"
  shows "read_repos (snd (copy_repos a st)) (fst (copy_repos a st)) = read_repos st a"
  using map_nth_fresh [of "objects st" "map (\<lambda>r. objects st ! r) (arrays st ! a)"]
  by (simp add: copy_repos_eq [OF assms] read_repos_def)


lemma setSelectedRepos_eq:
  assumes "well_formed (store s) a"
  shows "setSelectedRepos (Some a) s =
    s\<lparr>store := snd (copy_repos a (store s)),
      selectedRepos_ref := Some (length (arrays (store s)))\<rparr>"
  by (simp add: setSelectedRepos_def copy_repos_eq [OF assms])

lemma getSelectedRepos_eq:
  assumes "selectedRepos_ref s = Some b" and "well_formed (store s) b"
  shows "getSelectedRepos s =
    (Some (length (arrays (store s))), s\<lparr>store := snd (copy_repos b (store s))\<rparr>)"
  using assms(1) by (simp add: getSelectedRepos_def copy_repos_eq [OF assms(2)])

lemma isolated_after_set:
  assumes wf: "well_formed (store s) a"
    and fr: "leaves_allocated (store s) (store (setSelectedRepos (Some a) s)) later"
  shows "well_formed later (length (arrays (store s)))"
    and "read_repos later (length (arrays (store s))) = read_repos (store s) a"
proof -
  let ?st0 = "store s"
  let ?n = "length (objects ?st0)"
  let ?b = "length (arrays ?st0)"
  let ?rs = "arrays ?st0 ! a"
  let ?vals = "map (\<lambda>r. objects ?st0 ! r) ?rs"
  let ?st1 = "store (setSelectedRepos (Some a) s)"
  have st1: "?st1 = ?st0\<lparr>objects := objects ?st0 @ ?vals,
                         arrays := arrays ?st0 @ [[?n ..< ?n + length ?rs]]\<rparr>"
    by (simp add: setSelectedRepos_eq [OF wf] copy_repos_eq [OF wf])
  from fr have ko: "keeps_segment ?n (objects ?st1) (objects later)"
    and ka: "keeps_segment ?b (arrays ?st1) (arrays later)"
    by (simp_all add: leaves_allocated_def)
  have lo: "length (objects ?st1) = ?n + length ?rs" and la: "length (arrays ?st1) = Suc ?b"
    by (simp_all add: st1)
  from ko ka lo la have leno: "?n + length ?rs \<le> length (objects later)"
    and lena: "Suc ?b \<le> length (arrays later)"
    by (simp_all add: keeps_segment_def)
  have "arrays later ! ?b = arrays ?st1 ! ?b"
    using ka la by (intro keeps_segment_nth [of ?b]) simp_all
  then have arr: "arrays later ! ?b = [?n ..< ?n + length ?rs]"
    by (simp add: st1)
  show "well_formed later ?b"
    using arr leno lena by (simp add: well_formed_def list_all_iff)
  have "map (\<lambda>r. objects later ! r) [?n ..< ?n + length ?rs] =
        map (\<lambda>r. objects ?st1 ! r) [?n ..< ?n + length ?rs]"
  proof (rule map_cong [OF refl])
    fix r assume "r \<in> set [?n ..< ?n + length ?rs]"
    then have "?n \<le> r" and "r < length (objects ?st1)" by (simp_all add: lo)
    with ko show "objects later ! r = objects ?st1 ! r" by (rule keeps_segment_nth)
  qed
  also have "\<dots> = ?vals"
    using map_nth_fresh [of "objects ?st0" ?vals] by (simp add: st1)
  finally show "read_repos later ?b = read_repos ?st0 a"
    by (simp add: read_repos_def arr)
qed

lemma copy_repos_fst:
  assumes "well_formed st b"
  shows "fst (copy_repos b st) = length (arrays st)"
  by (simp add: copy_repos_eq [OF assms])

lemma copy_repos_fresh:
  assumes "well_formed st b"
  shows "list_all (\<lambda>r. length (objects st) \<le> r)
           (arrays (snd (copy_repos b st)) ! (length (arrays st)))"
  by (simp add: copy_repos_eq [OF assms] list_all_iff)

text \<open>
  Claim C10. After \<open>setSelectedRepos(repos)\<close> the model refers to a new array of new
  objects, none of them storage that existed before the call. Whatever callers then do
  to the storage they can reach, including writes to the original repository objects
  and to the original array, a later \<open>getSelectedRepos()\<close> returns a list that is
  element-wise equal to \<open>repos\<close> as it was at the time of the call, and that list is
  again made of new storage. \<open>undefined\<close> is accepted and is read back as \<open>undefined\<close>.
\<close>

theorem selectedRepos_never_alias:
  "(well_formed (store s) a
      \<and> leaves_allocated (store s) (store (setSelectedRepos (Some a) s)) later
    \<longrightarrow> selectedRepos_ref (setSelectedRepos (Some a) s) = Some (length (arrays (store s)))
      \<and> list_all (\<lambda>r. length (objects (store s)) \<le> r)
           (arrays (store (setSelectedRepos (Some a) s)) ! length (arrays (store s)))
      \<and> fst (getSelectedRepos ((setSelectedRepos (Some a) s)\<lparr>store := later\<rparr>)) =
           Some (length (arrays later))
      \<and> list_all (\<lambda>r. length (objects later) \<le> r)
           (arrays (store (snd (getSelectedRepos
              ((setSelectedRepos (Some a) s)\<lparr>store := later\<rparr>)))) ! length (arrays later))
      \<and> read_repos (store (snd (getSelectedRepos
              ((setSelectedRepos (Some a) s)\<lparr>store := later\<rparr>)))) (length (arrays later))
           = read_repos (store s) a)
   \<and> fst (getSelectedRepos ((setSelectedRepos None s)\<lparr>store := later\<rparr>)) = None"
proof (intro conjI impI)
  show "fst (getSelectedRepos ((setSelectedRepos None s)\<lparr>store := later\<rparr>)) = None"
    by (simp add: getSelectedRepos_def setSelectedRepos_def)
next
  assume h: "well_formed (store s) a
      \<and> leaves_allocated (store s) (store (setSelectedRepos (Some a) s)) later"
  then have wf: "well_formed (store s) a"
    and fr: "leaves_allocated (store s) (store (setSelectedRepos (Some a) s)) later"
    by simp_all
  let ?b = "length (arrays (store s))"
  let ?s1 = "(setSelectedRepos (Some a) s)\<lparr>store := later\<rparr>"
  have ref: "selectedRepos_ref ?s1 = Some ?b"
    by (simp add: setSelectedRepos_eq [OF wf])
  have wfl: "well_formed (store ?s1) ?b"
    using isolated_after_set(1) [OF wf fr] by simp
  have wfl': "well_formed later ?b"
    by (rule isolated_after_set(1) [OF wf fr])
  note get = getSelectedRepos_eq [OF ref wfl]
  show "selectedRepos_ref (setSelectedRepos (Some a) s) = Some ?b"
    by (simp add: setSelectedRepos_eq [OF wf])
  show "list_all (\<lambda>r. length (objects (store s)) \<le> r)
           (arrays (store (setSelectedRepos (Some a) s)) ! ?b)"
    using copy_repos_fresh [OF wf] by (simp add: setSelectedRepos_eq [OF wf])
  show "fst (getSelectedRepos ?s1) = Some (length (arrays later))"
    by (simp add: get)
  show "list_all (\<lambda>r. length (objects later) \<le> r)
           (arrays (store (snd (getSelectedRepos ?s1))) ! length (arrays later))"
    using copy_repos_fresh [OF wfl] by (simp add: get)
  have "read_repos (store (snd (getSelectedRepos ?s1))) (length (arrays later)) =
      read_repos later ?b"
    using copy_repos_read [OF wfl'] copy_repos_fst [OF wfl'] by (simp add: get)
  then show "read_repos (store (snd (getSelectedRepos ?s1))) (length (arrays later))
           = read_repos (store s) a"
    by (simp add: isolated_after_set(2) [OF wf fr])
qed

theorem selectedRepos_never_alias_witness:
  "well_formed (store sample_repos_state) 0
   \<and> leaves_allocated (store sample_repos_state)
       (store (setSelectedRepos (Some 0) sample_repos_state))
       (mutate_object 0 ''renamed'' (store (setSelectedRepos (Some 0) sample_repos_state)))
   \<and> read_repos (mutate_object 0 ''renamed''
         (store (setSelectedRepos (Some 0) sample_repos_state))) 0 = [''renamed'']
   \<and> fst (getSelectedRepos ((setSelectedRepos (Some 0) sample_repos_state)
         \<lparr>store := mutate_object 0 ''renamed''
            (store (setSelectedRepos (Some 0) sample_repos_state))\<rparr>)) = Some 2
   \<and> read_repos (store (snd (getSelectedRepos ((setSelectedRepos (Some 0) sample_repos_state)
         \<lparr>store := mutate_object 0 ''renamed''
            (store (setSelectedRepos (Some 0) sample_repos_state))\<rparr>)))) 2 = [''org/repo'']"
proof -
  let ?later = "mutate_object 0 ''renamed'' (store (setSelectedRepos (Some 0) sample_repos_state))"
  have st1: "store (setSelectedRepos (Some 0) sample_repos_state) =
      \<lparr>objects = [''org/repo'', ''org/repo''], arrays = [[0], [1]]\<rparr>"
    by (simp add: setSelectedRepos_def copy_repos_def alloc_object_def alloc_array_def
        sample_repos_state_def)
  have a: "well_formed (store sample_repos_state) 0"
    by (simp add: well_formed_def sample_repos_state_def)
  have b: "leaves_allocated (store sample_repos_state)
       (store (setSelectedRepos (Some 0) sample_repos_state)) ?later"
    by (simp add: st1 leaves_allocated_def keeps_segment_def mutate_object_def
        sample_repos_state_def)
  have c: "read_repos ?later 0 = [''renamed'']"
    by (simp add: st1 read_repos_def mutate_object_def)
  have d: "length (arrays ?later) = 2"
    by (simp add: st1 mutate_object_def)
  have e: "read_repos (store sample_repos_state) 0 = [''org/repo'']"
    by (simp add: read_repos_def sample_repos_state_def)
  from selectedRepos_never_alias [where s = sample_repos_state and a = 0 and later = ?later]
    a b c d e
  show ?thesis by simp
qed

end
